theory Spec2Isabelle
  imports Complex_Main
begin

section \<open>Python strings and the built-in conversions used by the decoder\<close>

text \<open>
  A Python \<open>str\<close> is modelled as a \<open>string\<close> whose characters are the code points
  below 256. In that range the decimal digits are \<open>0\<close> to \<open>9\<close> only and the characters
  for which \<open>str.isspace\<close> holds are the ones listed in \<open>is_space\<close>. The conversions
  \<open>int(v)\<close> and \<open>float(v)\<close> skip a smaller set of surrounding whitespace,
  \<open>is_numeric_space\<close>: the separators \<open>0x1c\<close> to \<open>0x1f\<close> are not in it.
\<close>

definition is_space :: "char \<Rightarrow> bool" where
  "is_space c = (of_char c \<in> {9, 10, 11, 12, 13, 28, 29, 30, 31, 32, 133, 160 :: int})"

definition is_numeric_space :: "char \<Rightarrow> bool" where
  "is_numeric_space c = (of_char c \<in> {9, 10, 11, 12, 13, 32, 133, 160 :: int})"

definition is_digit :: "char \<Rightarrow> bool" where
  "is_digit c = (48 \<le> (of_char c :: int) \<and> (of_char c :: int) \<le> 57)"

definition digit_val :: "char \<Rightarrow> int" where
  "digit_val c = of_char c - 48"

text \<open>\<open>s.strip()\<close>: leading and trailing whitespace removed.\<close>

definition strip_by :: "(char \<Rightarrow> bool) \<Rightarrow> string \<Rightarrow> string" where
  "strip_by sp s = rev (dropWhile sp (rev (dropWhile sp s)))"

definition strip :: "string \<Rightarrow> string" where
  "strip s = strip_by is_space s"

text \<open>
  \<open>s.split(sep)\<close> for a one-character separator: the pieces between the separators,
  empty pieces kept; the empty string gives one empty piece.
\<close>

fun split :: "char \<Rightarrow> string \<Rightarrow> string list" where
  "split sep [] = [[]]"
| "split sep (c # cs) =
     (if c = sep then [] # split sep cs
      else (case split sep cs of
              [] \<Rightarrow> [[c]]
            | w # ws \<Rightarrow> (c # w) # ws))"

text \<open>
  The digits of a numeric literal as the conversions accept them: a non-empty run of
  digits in which a single underscore may stand between two digits. \<open>digitpart\<close> returns
  the digits without the underscores, \<open>None\<close> when the text is not of that shape.
\<close>

fun digits_tail :: "string \<Rightarrow> string option" where
  "digits_tail [] = Some []"
| "digits_tail (c # cs) =
     (if is_digit c then map_option ((#) c) (digits_tail cs)
      else if c = CHR ''_'' then
        (case cs of
           [] \<Rightarrow> None
         | d # ds \<Rightarrow> if is_digit d then map_option ((#) d) (digits_tail ds) else None)
      else None)"

definition digitpart :: "string \<Rightarrow> string option" where
  "digitpart s =
     (case s of
        [] \<Rightarrow> None
      | c # cs \<Rightarrow> if is_digit c then map_option ((#) c) (digits_tail cs) else None)"

definition decimal :: "string \<Rightarrow> int" where
  "decimal ds = foldl (\<lambda>n c. 10 * n + digit_val c) 0 ds"

text \<open>
  \<open>int(v)\<close> for a string \<open>v\<close>: surrounding whitespace is skipped, then an optional sign and
  a \<open>digitpart\<close> in base 10. More digits than \<open>max_str_digits\<close> are refused (the default
  limit of the interpreter on the conversion of strings to integers; the sign and the
  underscores do not count). \<open>None\<close> stands for \<open>ValueError\<close>.
\<close>

definition max_str_digits :: nat where
  "max_str_digits = 4300"

definition limited :: "string option \<Rightarrow> string option" where
  "limited ds = (case ds of None \<Rightarrow> None | Some d \<Rightarrow> if max_str_digits < length d then None else Some d)"

definition py_int :: "string \<Rightarrow> int option" where
  "py_int v =
     (case strip_by is_numeric_space v of
        [] \<Rightarrow> None
      | c # cs \<Rightarrow>
          if c = CHR ''-'' then map_option (\<lambda>ds. - decimal ds) (limited (digitpart cs))
          else if c = CHR ''+'' then map_option decimal (limited (digitpart cs))
          else map_option decimal (limited (digitpart (c # cs))))"

section \<open>Python floats\<close>

text \<open>
  A Python \<open>float\<close> is an IEEE 754 binary64 value. \<open>Finite sg m e\<close> stands for
  \<open>(-1)^sg * m * 2^e\<close> in the canonical form of the format: \<open>2^52 \<le> m < 2^53\<close> and
  \<open>-1074 \<le> e \<le> 971\<close> for a normal number, \<open>m < 2^52\<close> and \<open>e = -1074\<close> for a subnormal
  number and for the two zeros (\<open>m = 0\<close>).
\<close>

datatype pyfloat = Finite bool int int | Inf bool | NaN

definition zero_float :: pyfloat where
  "zero_float = Finite False 0 (- 1074)"

text \<open>Truth value of a float: everything but \<open>0.0\<close> and \<open>-0.0\<close> is true.\<close>

fun float_bool :: "pyfloat \<Rightarrow> bool" where
  "float_bool (Finite sg m e) = (m \<noteq> 0)"
| "float_bool (Inf sg) = True"
| "float_bool NaN = True"

text \<open>\<open>n.bit_length()\<close> for \<open>0 \<le> n\<close>.\<close>

function bit_length :: "int \<Rightarrow> int" where
  "bit_length n = (if n \<le> 0 then 0 else 1 + bit_length (n div 2))"
  by pat_completeness auto
termination
  by (relation "measure nat") auto

declare bit_length.simps [simp del]

text \<open>The integer nearest to \<open>a / b\<close>, a tie going to the even one.\<close>

definition round_half_even :: "int \<Rightarrow> int \<Rightarrow> int" where
  "round_half_even a b =
     (let q = a div b; r = a mod b
      in if 2 * r < b then q
         else if b < 2 * r then q + 1
         else if even q then q else q + 1)"

text \<open>The fraction \<open>a / (b * 2^e)\<close> as numerator and denominator.\<close>

definition scaled :: "int \<Rightarrow> int \<Rightarrow> int \<Rightarrow> int \<times> int" where
  "scaled a b e = (if 0 \<le> e then (a, b * 2 ^ nat e) else (a * 2 ^ nat (- e), b))"

text \<open>
  \<open>ilog2 a b\<close> is the integer \<open>l\<close> with \<open>2^l \<le> a / b < 2^(l+1)\<close>, for \<open>0 < a\<close> and \<open>0 < b\<close>.
\<close>

definition ilog2 :: "int \<Rightarrow> int \<Rightarrow> int" where
  "ilog2 a b =
     (let k = bit_length a - bit_length b
      in if snd (scaled a b k) \<le> fst (scaled a b k) then k else k - 1)"

text \<open>
  The binary64 value nearest to \<open>(-1)^sg * a / b\<close> (for \<open>0 \<le> a\<close> and \<open>0 < b\<close>), ties to even,
  an overflow giving an infinity: the rounding every float operation of the
  interpreter performs. The exponent \<open>e\<close> is the one of the binade of \<open>a / b\<close>, not below
  the subnormal one; the significand is \<open>a / (b * 2^e)\<close> rounded, moved up one binade when
  the rounding reaches \<open>2^53\<close>.
\<close>

definition to_binary64 :: "bool \<Rightarrow> int \<Rightarrow> int \<Rightarrow> pyfloat" where
  "to_binary64 sg a b =
     (if a = 0 then Finite sg 0 (- 1074)
      else
        let e = max (ilog2 a b - 52) (- 1074);
            m = round_half_even (fst (scaled a b e)) (snd (scaled a b e))
        in if m = 2 ^ 53
           then (if 971 < e + 1 then Inf sg else Finite sg (2 ^ 52) (e + 1))
           else (if 971 < e then Inf sg else Finite sg m e))"

text \<open>
  The exceptions that can leave the functions modelled here. \<open>HTTPException\<close> carries
  the status code and the detail; \<open>RequestValidationError\<close> is what the framework raises
  (status 422) when a declared constraint on a parameter fails.
\<close>

datatype py_error =
  OverflowError | ZeroDivisionError | HTTPException nat string | RequestValidationError

text \<open>\<open>float(n)\<close> for an \<open>int\<close>: \<open>OverflowError\<close> when the rounded value is not finite.\<close>

definition float_of_int :: "int \<Rightarrow> py_error + pyfloat" where
  "float_of_int n =
     (case to_binary64 (n < 0) \<bar>n\<bar> 1 of
        Inf sg \<Rightarrow> Inl OverflowError
      | x \<Rightarrow> Inr x)"

text \<open>\<open>x / y\<close> on floats.\<close>

fun truediv :: "pyfloat \<Rightarrow> pyfloat \<Rightarrow> py_error + pyfloat" where
  "truediv (Finite s1 m1 e1) (Finite s2 m2 e2) =
     (if m2 = 0 then Inl ZeroDivisionError
      else Inr (to_binary64 (s1 \<noteq> s2) (m1 * 2 ^ nat (e1 - e2)) (m2 * 2 ^ nat (e2 - e1))))"
| "truediv (Finite s1 m1 e1) (Inf s2) = Inr (Finite (s1 \<noteq> s2) 0 (- 1074))"
| "truediv (Inf s1) (Finite s2 m2 e2) =
     (if m2 = 0 then Inl ZeroDivisionError else Inr (Inf (s1 \<noteq> s2)))"
| "truediv (Inf s1) (Inf s2) = Inr NaN"
| "truediv NaN (Finite s2 m2 e2) = (if m2 = 0 then Inl ZeroDivisionError else Inr NaN)"
| "truediv NaN (Inf s2) = Inr NaN"
| "truediv x NaN = Inr NaN"

text \<open>
  \<open>float(v)\<close> for a string \<open>v\<close>: surrounding whitespace is skipped; an underscore must
  stand between two digits; what is left is an optional sign followed by \<open>inf\<close>,
  \<open>infinity\<close> or \<open>nan\<close> in any case, or by a decimal number with an optional exponent.
  \<open>None\<close> stands for \<open>ValueError\<close>.
\<close>

definition ascii_lower :: "string \<Rightarrow> string" where
  "ascii_lower s =
     map (\<lambda>c. if 65 \<le> (of_char c :: int) \<and> (of_char c :: int) \<le> 90
              then char_of (of_char c + 32 :: int) else c) s"

fun underscores_ok :: "char \<Rightarrow> string \<Rightarrow> bool" where
  "underscores_ok prev [] = (prev \<noteq> CHR ''_'')"
| "underscores_ok prev (c # cs) =
     (if c = CHR ''_'' then is_digit prev \<and> underscores_ok c cs
      else if prev = CHR ''_'' then is_digit c \<and> underscores_ok c cs
      else underscores_ok c cs)"

definition all_digits :: "string \<Rightarrow> int option" where
  "all_digits s = (if s \<noteq> [] \<and> list_all is_digit s then Some (decimal s) else None)"

definition exponent :: "string \<Rightarrow> int option" where
  "exponent s =
     (case s of
        [] \<Rightarrow> None
      | c # cs \<Rightarrow>
          if c = CHR ''-'' then map_option uminus (all_digits cs)
          else if c = CHR ''+'' then all_digits cs
          else all_digits (c # cs))"

text \<open>The digits \<open>ds\<close> read as an integer, times \<open>10^x\<close>, rounded.\<close>

definition decimal_float :: "bool \<Rightarrow> string \<Rightarrow> int \<Rightarrow> pyfloat" where
  "decimal_float sg ds x =
     (if 0 \<le> x then to_binary64 sg (decimal ds * 10 ^ nat x) 1
      else to_binary64 sg (decimal ds) (10 ^ nat (- x)))"

definition number :: "bool \<Rightarrow> string \<Rightarrow> pyfloat option" where
  "number sg s =
     (let ip = takeWhile is_digit s;
          r1 = dropWhile is_digit s;
          fp = (case r1 of [] \<Rightarrow> [] | c # r \<Rightarrow> if c = CHR ''.'' then takeWhile is_digit r else []);
          r2 = (case r1 of [] \<Rightarrow> [] | c # r \<Rightarrow> if c = CHR ''.'' then dropWhile is_digit r else r1)
      in if ip = [] \<and> fp = [] then None
         else (case r2 of
                 [] \<Rightarrow> Some (decimal_float sg (ip @ fp) (- int (length fp)))
               | c # r3 \<Rightarrow>
                   if c = CHR ''e'' \<or> c = CHR ''E'' then
                     map_option (\<lambda>x. decimal_float sg (ip @ fp) (x - int (length fp))) (exponent r3)
                   else None))"

definition signed_float :: "bool \<Rightarrow> string \<Rightarrow> pyfloat option" where
  "signed_float sg s =
     (if ascii_lower s = ''inf'' \<or> ascii_lower s = ''infinity'' then Some (Inf sg)
      else if ascii_lower s = ''nan'' then Some NaN
      else number sg s)"

definition py_float :: "string \<Rightarrow> pyfloat option" where
  "py_float v =
     (let s = strip_by is_numeric_space v
      in if \<not> underscores_ok (CHR 0x00) s then None
         else (case filter (\<lambda>c. c \<noteq> CHR ''_'') s of
                 [] \<Rightarrow> None
               | c # cs \<Rightarrow>
                   if c = CHR ''-'' then signed_float True cs
                   else if c = CHR ''+'' then signed_float False cs
                   else signed_float False (c # cs)))"

section \<open>The sample decoder: \<open>parse_metrics\<close>\<close>

definition METRICS_INDEX :: "(string \<times> nat) list" where
  "METRICS_INDEX =
     [(''timestramp'', 0), (''usage_time'', 1), (''delta_cpu_time'', 2),
      (''cpu_usage'', 3), (''rx_data'', 4), (''tx_data'', 5)]"

text \<open>\<open>METRICS_INDEX[key]\<close>, for the keys the decoder uses (all of them in the table).\<close>

definition metrics_index :: "string \<Rightarrow> nat" where
  "metrics_index key = the (map_of METRICS_INDEX key)"

text \<open>The dictionary the decoder appends for one chunk.\<close>

record sample =
  timestramp :: int
  uid :: string
  package_name :: string
  usage_time :: int
  delta_cpu_time :: int
  cpu_usage :: pyfloat
  rx_data :: int
  tx_data :: int

text \<open>
  \<open>geti\<close> and \<open>getf\<close>: the sub-field at position \<open>i\<close>; \<open>None\<close> when the position is
  beyond the chunk (\<open>IndexError\<close>), when the sub-field is empty, and when it does not
  parse (\<open>ValueError\<close>).
\<close>

definition geti :: "string list \<Rightarrow> nat \<Rightarrow> int option" where
  "geti parts i =
     (if i < length parts then (if parts ! i = [] then None else py_int (parts ! i))
      else None)"

definition getf :: "string list \<Rightarrow> nat \<Rightarrow> pyfloat option" where
  "getf parts i =
     (if i < length parts then (if parts ! i = [] then None else py_float (parts ! i))
      else None)"

text \<open>Truth value of an optional integer, and \<open>x or d\<close> on optional values.\<close>

fun int_bool :: "int option \<Rightarrow> bool" where
  "int_bool None = False"
| "int_bool (Some n) = (n \<noteq> 0)"

fun or_int :: "int option \<Rightarrow> int \<Rightarrow> int" where
  "or_int None d = d"
| "or_int (Some n) d = (if n \<noteq> 0 then n else d)"

fun or_float :: "pyfloat option \<Rightarrow> pyfloat \<Rightarrow> pyfloat" where
  "or_float None d = d"
| "or_float (Some x) d = (if float_bool x then x else d)"

text \<open>
  The derivation step:
  \<^verbatim>\<open>if cpu is None and usage and usage != 0 and dcpu is not None:
    cpu = float(dcpu) / float(usage)\<close>
\<close>

definition derive_cpu ::
  "pyfloat option \<Rightarrow> int option \<Rightarrow> int option \<Rightarrow> py_error + pyfloat option" where
  "derive_cpu cpu usage dcpu =
     (if cpu = None \<and> int_bool usage \<and> usage \<noteq> Some 0 \<and> dcpu \<noteq> None then
        (case float_of_int (the dcpu) of
           Inl err \<Rightarrow> Inl err
         | Inr a \<Rightarrow>
             (case float_of_int (the usage) of
                Inl err \<Rightarrow> Inl err
              | Inr b \<Rightarrow>
                  (case truediv a b of
                     Inl err \<Rightarrow> Inl err
                   | Inr q \<Rightarrow> Inr (Some q))))
      else Inr cpu)"

text \<open>
  The body of the loop for one chunk: an error, no sample (\<open>continue\<close>), or the sample
  that is appended.
\<close>

definition parse_chunk :: "string \<Rightarrow> string \<Rightarrow> string \<Rightarrow> py_error + sample option" where
  "parse_chunk chunk pkg u =
     (let parts = split CHR '':'' chunk;
          ts = geti parts (metrics_index ''timestramp'');
          usage = geti parts (metrics_index ''usage_time'');
          dcpu = geti parts (metrics_index ''delta_cpu_time'');
          cpu = getf parts (metrics_index ''cpu_usage'');
          rx = (if map_of METRICS_INDEX ''rx_data'' \<noteq> None
                then geti parts (metrics_index ''rx_data'') else None);
          tx = geti parts (metrics_index ''tx_data'')
      in case derive_cpu cpu usage dcpu of
           Inl err \<Rightarrow> Inl err
         | Inr cpu' \<Rightarrow>
             (case ts of
                None \<Rightarrow> Inr None
              | Some t \<Rightarrow>
                  Inr (Some \<lparr>timestramp = t, uid = u, package_name = pkg,
                             usage_time = or_int usage 0,
                             delta_cpu_time = or_int dcpu 0,
                             cpu_usage = or_float cpu' zero_float,
                             rx_data = or_int rx 0,
                             tx_data = or_int tx 0\<rparr>)))"

fun parse_chunks :: "string list \<Rightarrow> string \<Rightarrow> string \<Rightarrow> sample list \<Rightarrow> py_error + sample list" where
  "parse_chunks [] pkg u out = Inr out"
| "parse_chunks (chunk # chunks) pkg u out =
     (case parse_chunk chunk pkg u of
        Inl err \<Rightarrow> Inl err
      | Inr None \<Rightarrow> parse_chunks chunks pkg u out
      | Inr (Some s) \<Rightarrow> parse_chunks chunks pkg u (out @ [s]))"

text \<open>The chunks the loop runs over: the pieces that are not blank.\<close>

definition chunks_of :: "string \<Rightarrow> string list" where
  "chunks_of metrics = filter (\<lambda>c. strip c \<noteq> []) (split CHR '';'' metrics)"

text \<open>
  \<open>parse_metrics(metrics, pkg, uid)\<close>; \<open>metrics\<close> is \<open>None\<close> for a \<open>NULL\<close> column.
  \<open>pkg\<close> and \<open>uid\<close> are strings, as annotated, so \<open>str(uid)\<close> is \<open>uid\<close>.
\<close>

definition parse_metrics :: "string option \<Rightarrow> string \<Rightarrow> string \<Rightarrow> py_error + sample list" where
  "parse_metrics metrics pkg u =
     (case metrics of
        None \<Rightarrow> Inr []
      | Some m \<Rightarrow> if m = [] then Inr [] else parse_chunks (chunks_of m) pkg u [])"

section \<open>The database and the collector: \<open>collect_processed\<close>\<close>

text \<open>
  A value of the loosely typed \<open>Uid\<close> (or \<open>Pids\<close>) column: \<open>NULL\<close>, an integer or a text
  (reals and blobs are left out). \<open>str\<close> is Python's \<open>str(...)\<close> on the value the driver
  returns for it. A row has a text as \<open>PackageName\<close> and a text or \<open>NULL\<close> as \<open>Metrics\<close>.
\<close>

datatype sql_value = Null | Integer int | Text string

function digits_of :: "int \<Rightarrow> string" where
  "digits_of n =
     (if n < 10 then [char_of (48 + n)]
      else digits_of (n div 10) @ [char_of (48 + n mod 10)])"
  by pat_completeness auto
termination
  by (relation "measure nat") auto

declare digits_of.simps [simp del]

fun str :: "sql_value \<Rightarrow> string" where
  "str Null = ''None''"
| "str (Integer n) = (if n < 0 then CHR ''-'' # digits_of (- n) else digits_of n)"
| "str (Text s) = s"

record row =
  PackageName :: string
  Uid :: sql_value
  Pids :: sql_value
  Metrics :: "string option"

text \<open>
  An open connection gives the rows of each table of the file, in storage order, and
  \<open>None\<close> for a table the file does not have. The file itself may be missing.
\<close>

type_synonym connection = "string \<Rightarrow> row list option"

definition TABLES :: "string list" where
  "TABLES = [''processes1'', ''processes2'', ''processes3'']"

definition connect :: "connection option \<Rightarrow> py_error + connection" where
  "connect db_file =
     (case db_file of
        None \<Rightarrow> Inl (HTTPException 400 ''Nenhum banco enviado. Use / (upload).'')
      | Some conn \<Rightarrow> Inr conn)"

definition table_exists :: "connection \<Rightarrow> string \<Rightarrow> bool" where
  "table_exists conn name = (conn name \<noteq> None)"

text \<open>\<open>results.sort(key=lambda x: x["timestramp"], reverse=True)\<close>: a stable sort.\<close>

definition sort_results :: "sample list \<Rightarrow> sample list" where
  "sort_results results = sort_key (\<lambda>x. - timestramp x) results"

text \<open>
  A loop either makes the function return (\<open>Return\<close>) or ends and hands on the
  results collected so far (\<open>Next\<close>).
\<close>

datatype flow = Return "sample list" | Next "sample list"

text \<open>Truth value of an optional string: \<open>None\<close> and the empty string are false.\<close>

fun str_bool :: "string option \<Rightarrow> bool" where
  "str_bool None = False"
| "str_bool (Some s) = (s \<noteq> [])"

definition in_range :: "int option \<Rightarrow> int option \<Rightarrow> int \<Rightarrow> bool" where
  "in_range start_ms end_ms ts =
     ((case start_ms of None \<Rightarrow> True | Some a \<Rightarrow> a \<le> ts) \<and>
      (case end_ms of None \<Rightarrow> True | Some b \<Rightarrow> ts \<le> b))"

text \<open>The innermost loop, over the samples of one row.\<close>

fun scan_recs :: "int option \<Rightarrow> int option \<Rightarrow> int \<Rightarrow> sample list \<Rightarrow> sample list \<Rightarrow> flow" where
  "scan_recs start_ms end_ms limit [] results = Next results"
| "scan_recs start_ms end_ms limit (rec # recs) results =
     (if in_range start_ms end_ms (timestramp rec) then
        (if limit \<le> int (length (results @ [rec]))
         then Return (sort_results (results @ [rec]))
         else scan_recs start_ms end_ms limit recs (results @ [rec]))
      else scan_recs start_ms end_ms limit recs results)"

text \<open>The loop over the rows of one table.\<close>

fun scan_rows ::
  "int option \<Rightarrow> int option \<Rightarrow> int \<Rightarrow> string option \<Rightarrow> string option \<Rightarrow>
   row list \<Rightarrow> sample list \<Rightarrow> py_error + flow" where
  "scan_rows start_ms end_ms limit pkg_filter uid_filter [] results = Inr (Next results)"
| "scan_rows start_ms end_ms limit pkg_filter uid_filter (r # rows) results =
     (let pkg = PackageName r; uid_row = str (Uid r)
      in if str_bool pkg_filter \<and> Some pkg \<noteq> pkg_filter
         then scan_rows start_ms end_ms limit pkg_filter uid_filter rows results
         else if str_bool uid_filter \<and> Some uid_row \<noteq> uid_filter
         then scan_rows start_ms end_ms limit pkg_filter uid_filter rows results
         else (case parse_metrics (Metrics r) pkg uid_row of
                 Inl err \<Rightarrow> Inl err
               | Inr recs \<Rightarrow>
                   (case scan_recs start_ms end_ms limit recs results of
                      Return res \<Rightarrow> Inr (Return res)
                    | Next res \<Rightarrow>
                        scan_rows start_ms end_ms limit pkg_filter uid_filter rows res)))"

text \<open>The outer loop, over \<open>TABLES\<close>.\<close>

fun scan_tables ::
  "connection \<Rightarrow> int option \<Rightarrow> int option \<Rightarrow> int \<Rightarrow> string option \<Rightarrow> string option \<Rightarrow>
   string list \<Rightarrow> sample list \<Rightarrow> py_error + flow" where
  "scan_tables conn start_ms end_ms limit pkg_filter uid_filter [] results = Inr (Next results)"
| "scan_tables conn start_ms end_ms limit pkg_filter uid_filter (t # ts) results =
     (if \<not> table_exists conn t
      then scan_tables conn start_ms end_ms limit pkg_filter uid_filter ts results
      else (case scan_rows start_ms end_ms limit pkg_filter uid_filter (the (conn t)) results of
              Inl err \<Rightarrow> Inl err
            | Inr (Return res) \<Rightarrow> Inr (Return res)
            | Inr (Next res) \<Rightarrow>
                scan_tables conn start_ms end_ms limit pkg_filter uid_filter ts res))"

definition collect_processed ::
  "connection option \<Rightarrow> int option \<Rightarrow> int option \<Rightarrow> int \<Rightarrow> string option \<Rightarrow> string option \<Rightarrow>
   py_error + sample list" where
  "collect_processed db_file start_ms end_ms limit pkg_filter uid_filter =
     (case connect db_file of
        Inl err \<Rightarrow> Inl err
      | Inr conn \<Rightarrow>
          (case scan_tables conn start_ms end_ms limit pkg_filter uid_filter TABLES [] of
             Inl err \<Rightarrow> Inl err
           | Inr (Return res) \<Rightarrow> Inr res
           | Inr (Next res) \<Rightarrow> Inr (sort_results res)))"

section \<open>The request handlers\<close>

text \<open>
  \<open>GET /processes\<close>. The declared constraint \<open>ge=1, le=100_000\<close> on \<open>limit\<close> is checked
  by the framework before the handler runs.
\<close>

definition processes ::
  "connection option \<Rightarrow> int \<Rightarrow> int \<Rightarrow> string option \<Rightarrow> string option \<Rightarrow> int \<Rightarrow>
   py_error + sample list" where
  "processes db_file start_ms end_ms pkg_filter uid_filter limit =
     (if limit < 1 \<or> 100000 < limit then Inl RequestValidationError
      else if end_ms < start_ms then Inl (HTTPException 400 ''start_ms deve ser <= end_ms'')
      else collect_processed db_file (Some start_ms) (Some end_ms) limit pkg_filter uid_filter)"

text \<open>\<open>s.endswith(suffix)\<close> and \<open>s.lower()\<close> (on the code points below 256).\<close>

definition endswith :: "string \<Rightarrow> string \<Rightarrow> bool" where
  "endswith s suffix = (take (length suffix) (rev s) = rev suffix)"

definition lower :: "string \<Rightarrow> string" where
  "lower s =
     map (\<lambda>c. if (65 \<le> (of_char c :: int) \<and> (of_char c :: int) \<le> 90) \<or>
                 (192 \<le> (of_char c :: int) \<and> (of_char c :: int) \<le> 222 \<and> (of_char c :: int) \<noteq> 215)
              then char_of (of_char c + 32 :: int) else c) s"

record upload_response =
  count :: nat
  results :: "sample list"

text \<open>
  \<open>POST /upload-db\<close>: the uploaded file (a database with the documented columns)
  replaces the active one, then the collector runs on it. The function returns the
  active file afterwards and the response; the \<open>saved_as\<close> path of the response is left
  out.
\<close>

definition upload_db ::
  "connection option \<Rightarrow> string \<Rightarrow> connection \<Rightarrow> int option \<Rightarrow> int option \<Rightarrow>
   string option \<Rightarrow> string option \<Rightarrow> int \<Rightarrow> connection option \<times> (py_error + upload_response)" where
  "upload_db db_file filename data start_ms end_ms pkg_filter uid_filter limit =
     (if limit < 1 \<or> 100000 < limit then (db_file, Inl RequestValidationError)
      else if \<not> (endswith (lower filename) ''.sqlite'' \<or> endswith (lower filename) ''.db'' \<or>
                  endswith (lower filename) ''.sql'')
      then (db_file, Inl (HTTPException 400 ''Envie um arquivo SQLite (.sqlite ou .db)''))
      else (Some data,
            (case collect_processed (Some data) start_ms end_ms limit pkg_filter uid_filter of
               Inl err \<Rightarrow> Inl err
             | Inr items \<Rightarrow> Inr \<lparr>count = length items, results = items\<rparr>)))"

section \<open>Notions used to state the properties of the collector\<close>

text \<open>
  The number of further matching samples after which \<open>collect_processed\<close> returns,
  when \<open>acc\<close> has been collected: the length is compared with the limit after
  each append.
\<close>

definition need :: "int \<Rightarrow> sample list \<Rightarrow> nat" where
  "need limit acc = max 1 (nat (limit - int (length acc)))"

text \<open>
  The matching samples of one row, in the order of its blob: none when the row fails
  the package or uid filter, else the decoded samples within the time range.
\<close>

definition row_recs ::
  "int option \<Rightarrow> int option \<Rightarrow> string option \<Rightarrow> string option \<Rightarrow> row \<Rightarrow> py_error + sample list" where
  "row_recs start_ms end_ms pkg_filter uid_filter r =
     (if str_bool pkg_filter \<and> Some (PackageName r) \<noteq> pkg_filter then Inr []
      else if str_bool uid_filter \<and> Some (str (Uid r)) \<noteq> uid_filter then Inr []
      else (case parse_metrics (Metrics r) (PackageName r) (str (Uid r)) of
              Inl err \<Rightarrow> Inl err
            | Inr recs \<Rightarrow> Inr (filter (\<lambda>s. in_range start_ms end_ms (timestramp s)) recs)))"


text \<open>The rows of the database in the order the collector scans them.\<close>

definition scan_order :: "connection \<Rightarrow> row list" where
  "scan_order conn = concat (map (\<lambda>t. case conn t of None \<Rightarrow> [] | Some rows \<Rightarrow> rows) TABLES)"

fun flow_list :: "flow \<Rightarrow> sample list" where
  "flow_list (Return res) = res"
| "flow_list (Next res) = res"

text \<open>The chunks of a blob whose timestamp sub-field parses.\<close>

definition kept_chunks :: "string option \<Rightarrow> string list" where
  "kept_chunks metrics =
     filter (\<lambda>c. geti (split CHR '':'' c) 0 \<noteq> None)
       (case metrics of None \<Rightarrow> [] | Some m \<Rightarrow> chunks_of m)"

section \<open>Example data\<close>

text \<open>
  A database with the tables \<open>processes1\<close> and \<open>processes3\<close> (no \<open>processes2\<close>): the
  rows yield the timestamps 5, 3, 9 and 4 in scan order.
\<close>

definition example_row :: "string \<Rightarrow> sql_value \<Rightarrow> string \<Rightarrow> row" where
  "example_row pkg v blob = \<lparr>PackageName = pkg, Uid = v, Pids = Null, Metrics = Some blob\<rparr>"

definition example_db :: connection where
  "example_db =
     map_of
       [(''processes1'', [example_row ''app'' (Integer 7) ''5'', example_row ''app'' (Integer 7) ''3'']),
        (''processes3'', [example_row ''app'' (Integer 7) ''9'', example_row ''other'' (Text ''x'') ''4''])]"

text \<open>The sample decoded from a chunk that holds a timestamp only.\<close>

definition example_sample :: "string \<Rightarrow> string \<Rightarrow> int \<Rightarrow> sample" where
  "example_sample pkg u t =
     \<lparr>timestramp = t, uid = u, package_name = pkg, usage_time = 0, delta_cpu_time = 0,
      cpu_usage = zero_float, rx_data = 0, tx_data = 0\<rparr>"

text \<open>A database whose only row holds a \<open>delta_cpu_time\<close> of 310 digits.\<close>

definition overflow_blob :: string where
  "overflow_blob = ''1000:5:1'' @ replicate 309 (CHR ''0'') @ '':abc''"

definition overflow_db :: connection where
  "overflow_db = map_of [(''processes1'', [example_row ''app'' (Integer 7) overflow_blob])]"

section \<open>Properties of the decoder\<close>

lemma metrics_index_simps:
  "metrics_index ''timestramp'' = 0"
  "metrics_index ''usage_time'' = 1"
  "metrics_index ''delta_cpu_time'' = 2"
  "metrics_index ''cpu_usage'' = 3"
  "metrics_index ''rx_data'' = 4"
  "metrics_index ''tx_data'' = 5"
  "map_of METRICS_INDEX ''rx_data'' \<noteq> None"
  by (simp_all add: metrics_index_def METRICS_INDEX_def)

lemma parse_chunk_eq:
  "parse_chunk chunk pkg u =
     (case derive_cpu (getf (split CHR '':'' chunk) 3) (geti (split CHR '':'' chunk) 1)
             (geti (split CHR '':'' chunk) 2) of
        Inl err \<Rightarrow> Inl err
      | Inr cpu' \<Rightarrow>
          (case geti (split CHR '':'' chunk) 0 of
             None \<Rightarrow> Inr None
           | Some t \<Rightarrow>
               Inr (Some \<lparr>timestramp = t, uid = u, package_name = pkg,
                          usage_time = or_int (geti (split CHR '':'' chunk) 1) 0,
                          delta_cpu_time = or_int (geti (split CHR '':'' chunk) 2) 0,
                          cpu_usage = or_float cpu' zero_float,
                          rx_data = or_int (geti (split CHR '':'' chunk) 4) 0,
                          tx_data = or_int (geti (split CHR '':'' chunk) 5) 0\<rparr>)))"
  by (simp add: parse_chunk_def metrics_index_simps Let_def del: One_nat_def)


lemma parse_chunk_None:
  "parse_chunk chunk pkg u = Inr None \<Longrightarrow> geti (split CHR '':'' chunk) 0 = None"
  by (simp add: parse_chunk_eq split: sum.splits option.splits)

lemma parse_chunk_Some:
  "parse_chunk chunk pkg u = Inr (Some s) \<Longrightarrow> geti (split CHR '':'' chunk) 0 = Some (timestramp s)"
  by (auto simp add: parse_chunk_eq split: sum.splits option.splits)

lemma parse_chunks_rel:
  "parse_chunks cs pkg u acc = Inr out \<Longrightarrow>
   \<exists>new. out = acc @ new \<and>
     list_all2 (\<lambda>s c. parse_chunk c pkg u = Inr (Some s)) new
       (filter (\<lambda>c. geti (split CHR '':'' c) 0 \<noteq> None) cs)"
proof (induction cs arbitrary: acc)
  case Nil
  then show ?case by simp
next
  case (Cons c cs)
  show ?case
  proof (cases "parse_chunk c pkg u")
    case (Inl err)
    with Cons.prems show ?thesis by simp
  next
    case (Inr r)
    show ?thesis
    proof (cases r)
      case None
      with Inr Cons.prems have "parse_chunks cs pkg u acc = Inr out" by simp
      from Cons.IH [OF this] obtain new where
        "out = acc @ new"
        "list_all2 (\<lambda>s c. parse_chunk c pkg u = Inr (Some s)) new
           (filter (\<lambda>c. geti (split CHR '':'' c) 0 \<noteq> None) cs)"
        by blast
      moreover from Inr None have "geti (split CHR '':'' c) 0 = None"
        by (simp add: parse_chunk_None)
      ultimately show ?thesis by auto
    next
      case (Some s)
      with Inr Cons.prems have "parse_chunks cs pkg u (acc @ [s]) = Inr out" by simp
      from Cons.IH [OF this] obtain new where
        "out = (acc @ [s]) @ new"
        "list_all2 (\<lambda>s c. parse_chunk c pkg u = Inr (Some s)) new
           (filter (\<lambda>c. geti (split CHR '':'' c) 0 \<noteq> None) cs)"
        by blast
      moreover from Inr Some have "geti (split CHR '':'' c) 0 \<noteq> None"
        by (simp add: parse_chunk_Some)
      ultimately have "out = acc @ (s # new) \<and>
        list_all2 (\<lambda>s c. parse_chunk c pkg u = Inr (Some s)) (s # new)
          (filter (\<lambda>c. geti (split CHR '':'' c) 0 \<noteq> None) (c # cs))"
        using Inr Some by simp
      then show ?thesis by blast
    qed
  qed
qed

lemma chunks_of_Nil: "chunks_of [] = []"
  by (simp add: chunks_of_def strip_def strip_by_def)

lemma parse_metrics_rel:
  assumes "parse_metrics metrics pkg u = Inr out"
  shows "list_all2 (\<lambda>s c. parse_chunk c pkg u = Inr (Some s)) out (kept_chunks metrics)"
proof (cases metrics)
  case None
  with assms show ?thesis by (simp add: parse_metrics_def kept_chunks_def)
next
  case (Some m)
  show ?thesis
  proof (cases "m = []")
    case True
    with Some assms show ?thesis
      by (simp add: parse_metrics_def kept_chunks_def chunks_of_Nil)
  next
    case False
    with Some assms have "parse_chunks (chunks_of m) pkg u [] = Inr out"
      by (simp add: parse_metrics_def)
    from parse_chunks_rel [OF this] Some show ?thesis
      by (simp add: kept_chunks_def)
  qed
qed

subsection \<open>Conversions to float, and when a chunk raises\<close>

lemma bit_length_lower: "0 < n \<Longrightarrow> 0 < bit_length n \<and> 2 ^ nat (bit_length n - 1) \<le> n"
proof (induction n rule: bit_length.induct)
  case (1 n)
  show ?case
  proof (cases "n div 2 \<le> 0")
    case True
    with "1.prems" have "n = 1" by linarith
    then show ?thesis
      by (simp add: bit_length.simps [of 1] bit_length.simps [of 0])
  next
    case False
    then have pos: "0 < n div 2" by simp
    with "1.IH" "1.prems" have
      ih: "0 < bit_length (n div 2)" "2 ^ nat (bit_length (n div 2) - 1) \<le> n div 2"
      by simp_all
    have bl: "bit_length n = 1 + bit_length (n div 2)"
      using "1.prems" by (simp add: bit_length.simps [of n])
    have "(2::int) ^ nat (bit_length (n div 2)) = 2 * 2 ^ nat (bit_length (n div 2) - 1)"
      using ih(1) by (metis Suc_nat_eq_nat_zadd1 diff_add_cancel diff_ge_0_iff_ge
          int_one_le_iff_zero_less power_Suc add.commute)
    also have "\<dots> \<le> 2 * (n div 2)" using ih(2) by simp
    also have "\<dots> \<le> n" by simp
    finally show ?thesis using bl ih(1) by simp
  qed
qed

lemma round_half_even_ge: "0 \<le> a \<Longrightarrow> 0 < b \<Longrightarrow> a div b \<le> round_half_even a b"
  by (simp add: round_half_even_def Let_def)

lemma bit_length_upper: "0 \<le> n \<Longrightarrow> n < 2 ^ nat (bit_length n)"
proof (induction n rule: bit_length.induct)
  case (1 n)
  show ?case
  proof (cases "n \<le> 0")
    case True
    with "1.prems" show ?thesis by (simp add: bit_length.simps [of n])
  next
    case False
    then have ih: "n div 2 < 2 ^ nat (bit_length (n div 2))"
      using "1.IH" by simp
    have nonneg: "0 \<le> bit_length (n div 2)"
      using ih by (cases "0 \<le> bit_length (n div 2)") (simp_all add: bit_length.simps [of "n div 2"])
    have bl: "bit_length n = 1 + bit_length (n div 2)"
      using False by (simp add: bit_length.simps [of n])
    have "n < 2 * (n div 2 + 1)" by presburger
    also have "\<dots> \<le> 2 * 2 ^ nat (bit_length (n div 2))" using ih by simp
    also have "\<dots> = 2 ^ nat (bit_length n)"
      using nonneg by (simp add: bl nat_add_distrib)
    finally show ?thesis .
  qed
qed

lemma ilog2_int:
  assumes "0 < a"
  shows "ilog2 a 1 = bit_length a - 1"
proof -
  have b1: "bit_length 1 = 1"
    by (simp add: bit_length.simps [of 1] bit_length.simps [of 0])
  from bit_length_lower [OF assms] show ?thesis
    by (simp add: ilog2_def b1 scaled_def)
qed

text \<open>The conversion of a positive integer: its exponent and its significand.\<close>

lemma to_binary64_int:
  assumes "0 < a"
  shows "to_binary64 sg a 1 =
     (if round_half_even (fst (scaled a 1 (bit_length a - 53))) (snd (scaled a 1 (bit_length a - 53))) = 2 ^ 53
      then (if 971 < bit_length a - 52 then Inf sg else Finite sg (2 ^ 52) (bit_length a - 52))
      else (if 971 < bit_length a - 53 then Inf sg
            else Finite sg (round_half_even (fst (scaled a 1 (bit_length a - 53)))
                              (snd (scaled a 1 (bit_length a - 53)))) (bit_length a - 53)))"
proof -
  from bit_length_lower [OF assms] have "max (bit_length a - 1 - 52) (- 1074) = bit_length a - 53"
    by simp
  with assms show ?thesis
    by (simp add: to_binary64_def ilog2_int Let_def)
qed

lemma round_half_even_int_pos:
  assumes "0 < a"
  shows "0 < round_half_even (fst (scaled a 1 (bit_length a - 53))) (snd (scaled a 1 (bit_length a - 53)))"
proof (cases "0 \<le> bit_length a - 53")
  case True
  from bit_length_lower [OF assms] have k: "2 ^ nat (bit_length a - 1) \<le> a" by simp
  have "nat (bit_length a - 53) \<le> nat (bit_length a - 1)" by simp
  then have "(2::int) ^ nat (bit_length a - 53) \<le> 2 ^ nat (bit_length a - 1)"
    by (rule power_increasing) simp
  then have "2 ^ nat (bit_length a - 53) \<le> a" using k by (rule order_trans)
  then have "0 < a div 2 ^ nat (bit_length a - 53)"
    using pos_imp_zdiv_pos_iff [of "2 ^ nat (bit_length a - 53)" a] by simp
  moreover have "a div 2 ^ nat (bit_length a - 53) \<le> round_half_even a (2 ^ nat (bit_length a - 53))"
    using assms by (intro round_half_even_ge) simp_all
  ultimately show ?thesis using True by (simp add: scaled_def)
next
  case False
  then show ?thesis using assms
    by (simp add: scaled_def round_half_even_def)
qed

lemma to_binary64_int_nonzero:
  assumes "0 < a" and "to_binary64 sg a 1 = Finite s m e"
  shows "m \<noteq> 0"
  using assms(2) round_half_even_int_pos [OF assms(1)]
  unfolding to_binary64_int [OF assms(1)]
  by (auto split: if_splits)

lemma round_half_even_top:
  fixes a H :: int
  assumes "0 < H" and "0 \<le> a" and "a < 2 ^ 53 * (2 * H)"
  shows "round_half_even a (2 * H) = 2 ^ 53 \<longleftrightarrow> (2 ^ 53 - 1) * (2 * H) + H \<le> a"
proof -
  define q where "q = a div (2 * H)"
  define r where "r = a mod (2 * H)"
  have a: "a = q * (2 * H) + r" unfolding q_def r_def by (rule div_mult_mod_eq [symmetric])
  have r: "0 \<le> r" "r < 2 * H" using assms(1) by (simp_all add: r_def)
  have "q < 2 ^ 53"
  proof (rule ccontr)
    assume "\<not> q < 2 ^ 53"
    then have "2 ^ 53 \<le> q" by simp
    then have "2 ^ 53 * (2 * H) \<le> q * (2 * H)"
      using assms(1) by (intro mult_right_mono) simp_all
    with a r(1) assms(3) show False by linarith
  qed
  then have q: "q \<le> 2 ^ 53 - 1" by simp
  have rhe: "round_half_even a (2 * H) =
      (if r < H then q else if H < r then q + 1 else if even q then q else q + 1)"
    by (simp add: round_half_even_def Let_def q_def r_def)
  show ?thesis
  proof (cases "q = 2 ^ 53 - 1")
    case True
    then have "odd q" by simp
    with True have lhs: "round_half_even a (2 * H) = 2 ^ 53 \<longleftrightarrow> H \<le> r"
      unfolding rhe by auto
    have "a = (2 ^ 53 - 1) * (2 * H) + r"
      using a True by simp
    then have "(2 ^ 53 - 1) * (2 * H) + H \<le> a \<longleftrightarrow> H \<le> r"
      by simp
    with lhs show ?thesis by simp
  next
    case False
    with q have "q + 1 \<le> 2 ^ 53 - 1" by simp
    then have le: "(q + 1) * (2 * H) \<le> (2 ^ 53 - 1) * (2 * H)"
      using assms(1) by (intro mult_right_mono) simp_all
    have "a < q * (2 * H) + 2 * H" using a r(2) by simp
    also have "\<dots> = (q + 1) * (2 * H)" by (simp add: algebra_simps)
    also note le
    also have "(2 ^ 53 - 1) * (2 * H) < (2 ^ 53 - 1) * (2 * H) + H" using assms(1) by simp
    finally have "a < (2 ^ 53 - 1) * (2 * H) + H" .
    moreover have "round_half_even a (2 * H) \<noteq> 2 ^ 53"
      using False q unfolding rhe by auto
    ultimately show ?thesis by simp
  qed
qed

text \<open>
  The conversion of an integer to float overflows exactly from \<open>2^1024 - 2^970\<close> on, the
  midpoint between the largest float and \<open>2^1024\<close>.
\<close>

lemma to_binary64_int_overflow:
  assumes "0 < a"
  shows "to_binary64 sg a 1 = Inf sg \<longleftrightarrow> 2 ^ 1024 - 2 ^ 970 \<le> a"
proof -
  from bit_length_lower [OF assms] have lo: "2 ^ nat (bit_length a - 1) \<le> a" by simp
  from bit_length_upper [of a] assms have hi: "a < 2 ^ nat (bit_length a)" by simp
  consider "1025 \<le> bit_length a" | "bit_length a \<le> 1023" | "bit_length a = 1024"
    by linarith
  then show ?thesis
  proof cases
    case 1
    then have "(2::int) ^ 1024 \<le> 2 ^ nat (bit_length a - 1)"
      by (intro power_increasing) simp_all
    with lo have "2 ^ 1024 \<le> a" by (rule order_trans [rotated])
    then have "2 ^ 1024 - 2 ^ 970 \<le> a" by simp
    moreover from 1 have "to_binary64 sg a 1 = Inf sg"
      by (simp add: to_binary64_int [OF assms])
    ultimately show ?thesis by simp
  next
    case 2
    then have "(2::int) ^ nat (bit_length a) \<le> 2 ^ 1023"
      by (intro power_increasing) simp_all
    with hi have "a < 2 ^ 1023" by (rule less_le_trans)
    then have "\<not> 2 ^ 1024 - 2 ^ 970 \<le> a" by simp
    moreover from 2 have "to_binary64 sg a 1 \<noteq> Inf sg"
      by (simp add: to_binary64_int [OF assms])
    ultimately show ?thesis by simp
  next
    case 3
    have sc: "scaled a 1 (bit_length a - 53) = (a, 2 * 2 ^ 970)"
      by (simp add: 3 scaled_def)
    from hi 3 have "a < 2 ^ 53 * (2 * 2 ^ 970)" by simp
    from round_half_even_top [OF _ _ this] assms
    have "round_half_even a (2 * 2 ^ 970) = 2 ^ 53 \<longleftrightarrow> (2 ^ 53 - 1) * (2 * 2 ^ 970) + 2 ^ 970 \<le> a"
      by simp
    also have "(2 ^ 53 - 1) * (2 * 2 ^ 970) + 2 ^ 970 = (2::int) ^ 1024 - 2 ^ 970"
      by simp
    finally have top: "round_half_even a (2 * 2 ^ 970) = 2 ^ 53 \<longleftrightarrow> 2 ^ 1024 - 2 ^ 970 \<le> a" .
    have "to_binary64 sg a 1 = Inf sg \<longleftrightarrow> round_half_even a (2 * 2 ^ 970) = 2 ^ 53"
      unfolding to_binary64_int [OF assms] sc by (simp add: 3)
    with top show ?thesis by simp
  qed
qed

lemma float_of_int_overflow:
  "float_of_int n = Inl OverflowError \<longleftrightarrow> 2 ^ 1024 - 2 ^ 970 \<le> \<bar>n\<bar>"
proof (cases "n = 0")
  case True
  then show ?thesis by (simp add: float_of_int_def to_binary64_def)
next
  case False
  then have pos: "0 < \<bar>n\<bar>" by simp
  have "float_of_int n = Inl OverflowError \<longleftrightarrow> to_binary64 (n < 0) \<bar>n\<bar> 1 = Inf (n < 0)"
    by (auto simp add: float_of_int_def to_binary64_int [OF pos] split: pyfloat.splits if_splits)
  then show ?thesis
    by (simp only: to_binary64_int_overflow [OF pos])
qed

lemma float_of_int_Inl: "float_of_int n = Inl err \<Longrightarrow> err = OverflowError"
  by (auto simp add: float_of_int_def split: pyfloat.splits)

lemma to_binary64_not_NaN: "to_binary64 sg a b \<noteq> NaN"
  by (simp add: to_binary64_def Let_def)

lemma float_of_int_Inr:
  assumes "float_of_int n = Inr x"
  shows "\<exists>s m e. x = Finite s m e \<and> (n \<noteq> 0 \<longrightarrow> m \<noteq> 0)"
proof (cases "to_binary64 (n < 0) \<bar>n\<bar> 1")
  case (Finite s m e)
  with assms have x: "x = Finite s m e" by (simp add: float_of_int_def)
  have "n \<noteq> 0 \<Longrightarrow> m \<noteq> 0"
    using to_binary64_int_nonzero [OF _ Finite] by simp
  with x show ?thesis by blast
next
  case (Inf sg)
  with assms show ?thesis by (simp add: float_of_int_def)
next
  case NaN
  then show ?thesis by (simp add: to_binary64_not_NaN)
qed

lemma derive_cpu_error:
  "derive_cpu cpu usage dcpu = Inl err \<longleftrightarrow>
     err = OverflowError \<and> cpu = None \<and>
     (\<exists>us d. usage = Some us \<and> us \<noteq> 0 \<and> dcpu = Some d \<and>
        (float_of_int d = Inl OverflowError \<or> float_of_int us = Inl OverflowError))"
proof (cases "cpu = None \<and> int_bool usage \<and> usage \<noteq> Some 0 \<and> dcpu \<noteq> None")
  case False
  then show ?thesis
    by (cases usage) (auto simp add: derive_cpu_def)
next
  case True
  then obtain us d where ud: "usage = Some us" "us \<noteq> 0" "dcpu = Some d" "cpu = None"
    by (cases usage) auto
  show ?thesis
  proof (cases "float_of_int d")
    case (Inl e1)
    with ud float_of_int_Inl [OF Inl] show ?thesis
      by (auto simp add: derive_cpu_def)
  next
    case a: (Inr a)
    show ?thesis
    proof (cases "float_of_int us")
      case (Inl e2)
      with a ud float_of_int_Inl [OF Inl] show ?thesis
        by (auto simp add: derive_cpu_def)
    next
      case b: (Inr b)
      from float_of_int_Inr [OF a] obtain s1 m1 e1 where a': "a = Finite s1 m1 e1" by blast
      from float_of_int_Inr [OF b] ud(2) obtain s2 m2 e2 where
        b': "b = Finite s2 m2 e2" "m2 \<noteq> 0" by blast
      from a b a' b' ud show ?thesis
        by (simp add: derive_cpu_def)
    qed
  qed
qed

text \<open>
  A chunk makes the decoder raise exactly when the derivation runs and one of its two
  conversions to float overflows. In every other case the chunk is dropped when its
  timestamp is absent and gives a sample when it is present.
\<close>

lemma parse_chunk_error:
  "parse_chunk c pkg u = Inl err \<longleftrightarrow>
     err = OverflowError \<and> getf (split CHR '':'' c) 3 = None \<and>
     (\<exists>us d. geti (split CHR '':'' c) 1 = Some us \<and> us \<noteq> 0 \<and>
        geti (split CHR '':'' c) 2 = Some d \<and>
        (2 ^ 1024 - 2 ^ 970 \<le> \<bar>d\<bar> \<or> 2 ^ 1024 - 2 ^ 970 \<le> \<bar>us\<bar>))"
proof -
  have "parse_chunk c pkg u = Inl err \<longleftrightarrow>
        derive_cpu (getf (split CHR '':'' c) 3) (geti (split CHR '':'' c) 1)
          (geti (split CHR '':'' c) 2) = Inl err"
    by (simp add: parse_chunk_eq split: sum.splits option.splits)
  then show ?thesis by (simp only: derive_cpu_error float_of_int_overflow)
qed

lemma parse_chunk_cases:
  "parse_chunk c pkg u = Inl OverflowError \<or>
   geti (split CHR '':'' c) 0 = None \<and> parse_chunk c pkg u = Inr None \<or>
   (\<exists>s. geti (split CHR '':'' c) 0 = Some (timestramp s) \<and> parse_chunk c pkg u = Inr (Some s))"
proof (cases "parse_chunk c pkg u")
  case (Inl err)
  then show ?thesis by (simp add: parse_chunk_error)
next
  case (Inr r)
  then show ?thesis
    by (cases r) (simp_all add: parse_chunk_None parse_chunk_Some)
qed

lemma parse_chunk_cpu_usage:
  assumes "parse_chunk c pkg u = Inr (Some s)"
  shows "(\<forall>x. getf (split CHR '':'' c) 3 = Some x \<longrightarrow>
            cpu_usage s = (if float_bool x then x else zero_float)) \<and>
         (\<forall>us d. getf (split CHR '':'' c) 3 = None \<and> geti (split CHR '':'' c) 1 = Some us \<and>
            us \<noteq> 0 \<and> geti (split CHR '':'' c) 2 = Some d \<longrightarrow>
            (\<exists>a b q. float_of_int d = Inr a \<and> float_of_int us = Inr b \<and> truediv a b = Inr q \<and>
               cpu_usage s = (if float_bool q then q else zero_float))) \<and>
         (getf (split CHR '':'' c) 3 = None \<and>
            (geti (split CHR '':'' c) 1 = None \<or> geti (split CHR '':'' c) 1 = Some 0 \<or>
             geti (split CHR '':'' c) 2 = None) \<longrightarrow>
            cpu_usage s = zero_float)"
proof -
  from assms obtain cpu' t where
    d: "derive_cpu (getf (split CHR '':'' c) 3) (geti (split CHR '':'' c) 1)
          (geti (split CHR '':'' c) 2) = Inr cpu'" and
    s: "cpu_usage s = or_float cpu' zero_float"
    by (auto simp add: parse_chunk_eq split: sum.splits option.splits)
  have 1: "\<And>x. getf (split CHR '':'' c) 3 = Some x \<Longrightarrow>
             cpu_usage s = (if float_bool x then x else zero_float)"
  proof -
    fix x
    assume g: "getf (split CHR '':'' c) 3 = Some x"
    with d have "cpu' = Some x" by (simp add: derive_cpu_def)
    with s show "cpu_usage s = (if float_bool x then x else zero_float)" by simp
  qed
  have 2: "\<And>us d. getf (split CHR '':'' c) 3 = None \<Longrightarrow> geti (split CHR '':'' c) 1 = Some us \<Longrightarrow>
            us \<noteq> 0 \<Longrightarrow> geti (split CHR '':'' c) 2 = Some d \<Longrightarrow>
            (\<exists>a b q. float_of_int d = Inr a \<and> float_of_int us = Inr b \<and> truediv a b = Inr q \<and>
               cpu_usage s = (if float_bool q then q else zero_float))"
    using d s by (auto simp add: derive_cpu_def split: sum.splits)
  have 3: "getf (split CHR '':'' c) 3 = None \<Longrightarrow>
            (geti (split CHR '':'' c) 1 = None \<or> geti (split CHR '':'' c) 1 = Some 0 \<or>
             geti (split CHR '':'' c) 2 = None) \<Longrightarrow> cpu_usage s = zero_float"
    using d s by (auto simp add: derive_cpu_def split: if_splits)
  from 1 2 3 show ?thesis by blast
qed


subsection \<open>The laws of the decoder\<close>

text \<open>
  C1 (amended). Derivation law, for the samples of a decoded blob and the chunks they
  come from: a raw \<open>cpu_usage\<close> that parses is the output value; else, when \<open>usage_time\<close>
  is present and not zero (of either sign) and \<open>delta_cpu_time\<close> is present, the output is
  \<open>float(delta_cpu_time) / float(usage_time)\<close>; else it is \<open>0.0\<close>. In each case a zero
  of either sign is given as \<open>0.0\<close>. A present zero \<open>usage_time\<close> does not divide.
\<close>

theorem cpu_usage_derivation:
  assumes "parse_metrics metrics pkg u = Inr out"
  shows "list_all2
           (\<lambda>s c.
              (\<forall>x. getf (split CHR '':'' c) 3 = Some x \<longrightarrow>
                 cpu_usage s = (if float_bool x then x else zero_float)) \<and>
              (\<forall>us d. getf (split CHR '':'' c) 3 = None \<and> geti (split CHR '':'' c) 1 = Some us \<and>
                 us \<noteq> 0 \<and> geti (split CHR '':'' c) 2 = Some d \<longrightarrow>
                 (\<exists>a b q. float_of_int d = Inr a \<and> float_of_int us = Inr b \<and>
                    truediv a b = Inr q \<and>
                    cpu_usage s = (if float_bool q then q else zero_float))) \<and>
              (getf (split CHR '':'' c) 3 = None \<and>
                 (geti (split CHR '':'' c) 1 = None \<or> geti (split CHR '':'' c) 1 = Some 0 \<or>
                  geti (split CHR '':'' c) 2 = None) \<longrightarrow>
                 cpu_usage s = zero_float))
           out (kept_chunks metrics)"
  by (rule list_all2_mono [OF parse_metrics_rel [OF assms]]) (rule parse_chunk_cpu_usage)

theorem cpu_usage_derivation_witness:
  "parse_metrics (Some ''1000:5:2::10:20;1001:0:2::10:20;1002:5:2:0.4:10:20'') ''app'' ''7'' =
     Inr [\<lparr>timestramp = 1000, uid = ''7'', package_name = ''app'', usage_time = 5,
           delta_cpu_time = 2, cpu_usage = Finite False 7205759403792794 (- 54),
           rx_data = 10, tx_data = 20\<rparr>,
          \<lparr>timestramp = 1001, uid = ''7'', package_name = ''app'', usage_time = 0,
           delta_cpu_time = 2, cpu_usage = zero_float, rx_data = 10, tx_data = 20\<rparr>,
          \<lparr>timestramp = 1002, uid = ''7'', package_name = ''app'', usage_time = 5,
           delta_cpu_time = 2, cpu_usage = Finite False 7205759403792794 (- 54),
           rx_data = 10, tx_data = 20\<rparr>] \<and>
   kept_chunks (Some ''1000:5:2::10:20;1001:0:2::10:20;1002:5:2:0.4:10:20'') =
     [''1000:5:2::10:20'', ''1001:0:2::10:20'', ''1002:5:2:0.4:10:20''] \<and>
   py_float ''0.4'' = Some (Finite False 7205759403792794 (- 54)) \<and>
   list_all2
     (\<lambda>s c.
        (\<forall>x. getf (split CHR '':'' c) 3 = Some x \<longrightarrow>
           cpu_usage s = (if float_bool x then x else zero_float)) \<and>
        (\<forall>us d. getf (split CHR '':'' c) 3 = None \<and> geti (split CHR '':'' c) 1 = Some us \<and>
           us \<noteq> 0 \<and> geti (split CHR '':'' c) 2 = Some d \<longrightarrow>
           (\<exists>a b q. float_of_int d = Inr a \<and> float_of_int us = Inr b \<and>
              truediv a b = Inr q \<and>
              cpu_usage s = (if float_bool q then q else zero_float))) \<and>
        (getf (split CHR '':'' c) 3 = None \<and>
           (geti (split CHR '':'' c) 1 = None \<or> geti (split CHR '':'' c) 1 = Some 0 \<or>
            geti (split CHR '':'' c) 2 = None) \<longrightarrow>
           cpu_usage s = zero_float))
     [\<lparr>timestramp = 1000, uid = ''7'', package_name = ''app'', usage_time = 5,
       delta_cpu_time = 2, cpu_usage = Finite False 7205759403792794 (- 54),
       rx_data = 10, tx_data = 20\<rparr>,
      \<lparr>timestramp = 1001, uid = ''7'', package_name = ''app'', usage_time = 0,
       delta_cpu_time = 2, cpu_usage = zero_float, rx_data = 10, tx_data = 20\<rparr>,
      \<lparr>timestramp = 1002, uid = ''7'', package_name = ''app'', usage_time = 5,
       delta_cpu_time = 2, cpu_usage = Finite False 7205759403792794 (- 54),
       rx_data = 10, tx_data = 20\<rparr>]
     [''1000:5:2::10:20'', ''1001:0:2::10:20'', ''1002:5:2:0.4:10:20'']"
proof -
  have decoded:
    "parse_metrics (Some ''1000:5:2::10:20;1001:0:2::10:20;1002:5:2:0.4:10:20'') ''app'' ''7'' =
     Inr [\<lparr>timestramp = 1000, uid = ''7'', package_name = ''app'', usage_time = 5,
           delta_cpu_time = 2, cpu_usage = Finite False 7205759403792794 (- 54),
           rx_data = 10, tx_data = 20\<rparr>,
          \<lparr>timestramp = 1001, uid = ''7'', package_name = ''app'', usage_time = 0,
           delta_cpu_time = 2, cpu_usage = zero_float, rx_data = 10, tx_data = 20\<rparr>,
          \<lparr>timestramp = 1002, uid = ''7'', package_name = ''app'', usage_time = 5,
           delta_cpu_time = 2, cpu_usage = Finite False 7205759403792794 (- 54),
           rx_data = 10, tx_data = 20\<rparr>]"
    by code_simp
  have kept:
    "kept_chunks (Some ''1000:5:2::10:20;1001:0:2::10:20;1002:5:2:0.4:10:20'') =
     [''1000:5:2::10:20'', ''1001:0:2::10:20'', ''1002:5:2:0.4:10:20'']"
    by code_simp
  have raw: "py_float ''0.4'' = Some (Finite False 7205759403792794 (- 54))"
    by code_simp
  from cpu_usage_derivation [OF decoded] decoded kept raw show ?thesis
    by (simp only: kept simp_thms)
qed

text \<open>
  C1 as stated fails for a negative \<open>usage_time\<close>: the raw \<open>cpu_usage\<close> is absent and
  \<open>usage_time > 0\<close> does not hold, so the stated law gives \<open>0.0\<close>, but the decoder
  divides and gives \<open>2 / -5 = -0.4\<close>.
\<close>

theorem cpu_usage_derivation_counterexample:
  "getf (split CHR '':'' ''1000:-5:2::10:20'') 3 = None \<and>
   geti (split CHR '':'' ''1000:-5:2::10:20'') 1 = Some (- 5) \<and> \<not> (0::int) < - 5 \<and>
   parse_metrics (Some ''1000:-5:2::10:20'') ''app'' ''7'' =
     Inr [\<lparr>timestramp = 1000, uid = ''7'', package_name = ''app'', usage_time = - 5,
           delta_cpu_time = 2, cpu_usage = Finite True 7205759403792794 (- 54),
           rx_data = 10, tx_data = 20\<rparr>] \<and>
   Finite True 7205759403792794 (- 54) \<noteq> zero_float"
  by code_simp



text \<open>
  C8, at a failing input. The chunk has a timestamp that parses and an unparsable
  \<open>cpu_usage\<close> sub-field, which is treated as absent; the derivation then converts a
  \<open>delta_cpu_time\<close> of 310 digits to float, and the \<open>OverflowError\<close> of that conversion
  leaves the decoder: no sample is emitted.
\<close>

theorem decoder_overflow:
  "geti (split CHR '':'' overflow_blob) 0 = Some 1000 \<and>
   geti (split CHR '':'' overflow_blob) 1 = Some 5 \<and>
   geti (split CHR '':'' overflow_blob) 2 = Some (10 ^ 309) \<and>
   py_float ''abc'' = None \<and>
   getf (split CHR '':'' overflow_blob) 3 = None \<and>
   parse_metrics (Some overflow_blob) ''app'' ''7'' = Inl OverflowError"
  by code_simp

text \<open>
  C10. A \<open>NULL\<close> or empty metrics blob decodes to the empty sequence, without an error,
  and a row with such a blob leaves the results of the scan as they are.
\<close>

theorem parse_metrics_empty:
  "parse_metrics None pkg u = Inr [] \<and> parse_metrics (Some []) pkg u = Inr [] \<and>
   (Metrics r = None \<or> Metrics r = Some [] \<longrightarrow>
      scan_rows start_ms end_ms limit pkg_filter uid_filter (r # rows) acc =
      scan_rows start_ms end_ms limit pkg_filter uid_filter rows acc)"
  by (auto simp add: parse_metrics_def Let_def)

theorem parse_metrics_empty_witness:
  "parse_metrics None ''app'' ''7'' = Inr [] \<and> parse_metrics (Some []) ''app'' ''7'' = Inr [] \<and>
   Metrics \<lparr>PackageName = ''app'', Uid = Integer 7, Pids = Null, Metrics = None\<rparr> = None \<and>
   scan_rows None None 10 None None
     [\<lparr>PackageName = ''app'', Uid = Integer 7, Pids = Null, Metrics = None\<rparr>] [] = Inr (Next [])"
  using parse_metrics_empty [of "''app''" "''7''"
      "\<lparr>PackageName = ''app'', Uid = Integer 7, Pids = Null, Metrics = None\<rparr>"
      None None 10 None None "[]" "[]"]
  by simp

section \<open>Properties of the collector\<close>

lemma need_pos: "1 \<le> need limit acc"
  by (simp add: need_def)

lemma need_snoc:
  "\<not> limit \<le> int (length acc) + 1 \<Longrightarrow> need limit acc = Suc (need limit (acc @ [s]))"
  by (simp add: need_def)

lemma need_one: "limit \<le> int (length acc) + 1 \<Longrightarrow> need limit acc = 1"
  by (simp add: need_def)

lemma scan_recs_closed:
  "scan_recs start_ms end_ms limit recs acc =
     (if need limit acc \<le> length (filter (\<lambda>s. in_range start_ms end_ms (timestramp s)) recs)
      then Return (sort_results
             (acc @ take (need limit acc) (filter (\<lambda>s. in_range start_ms end_ms (timestramp s)) recs)))
      else Next (acc @ filter (\<lambda>s. in_range start_ms end_ms (timestramp s)) recs))"
proof (induction recs arbitrary: acc)
  case Nil
  then show ?case using need_pos [of limit acc] by simp
next
  case (Cons r recs)
  show ?case
  proof (cases "in_range start_ms end_ms (timestramp r)")
    case False
    then show ?thesis using Cons.IH [of acc] by simp
  next
    case True
    show ?thesis
    proof (cases "limit \<le> int (length acc) + 1")
      case True
      with \<open>in_range start_ms end_ms (timestramp r)\<close> show ?thesis
        by (simp add: need_one)
    next
      case False
      with \<open>in_range start_ms end_ms (timestramp r)\<close> show ?thesis
        using Cons.IH [of "acc @ [r]"] by (simp add: need_snoc [OF False, of r])
    qed
  qed
qed

lemma scan_rows_step:
  "scan_rows start_ms end_ms limit pkg_filter uid_filter (r # rows) acc =
     (case row_recs start_ms end_ms pkg_filter uid_filter r of
        Inl err \<Rightarrow> Inl err
      | Inr ms \<Rightarrow>
          if need limit acc \<le> length ms
          then Inr (Return (sort_results (acc @ take (need limit acc) ms)))
          else scan_rows start_ms end_ms limit pkg_filter uid_filter rows (acc @ ms))"
  using need_pos [of limit acc]
  by (auto simp add: row_recs_def Let_def scan_recs_closed split: sum.splits)

lemma scan_rows_append:
  "scan_rows start_ms end_ms limit pkg_filter uid_filter (xs @ ys) acc =
     (case scan_rows start_ms end_ms limit pkg_filter uid_filter xs acc of
        Inl err \<Rightarrow> Inl err
      | Inr (Return res) \<Rightarrow> Inr (Return res)
      | Inr (Next res) \<Rightarrow> scan_rows start_ms end_ms limit pkg_filter uid_filter ys res)"
proof (induction xs arbitrary: acc)
  case Nil
  then show ?case by simp
next
  case (Cons r xs)
  show ?case
    unfolding append_Cons scan_rows_step
    by (simp add: Cons.IH split: sum.splits)
qed

lemma scan_tables_flat:
  "scan_tables conn start_ms end_ms limit pkg_filter uid_filter ts acc =
   scan_rows start_ms end_ms limit pkg_filter uid_filter
     (concat (map (\<lambda>t. case conn t of None \<Rightarrow> [] | Some rows \<Rightarrow> rows) ts)) acc"
proof (induction ts arbitrary: acc)
  case Nil
  then show ?case by simp
next
  case (Cons t ts)
  show ?case
  proof (cases "conn t")
    case None
    then show ?thesis using Cons.IH by (simp add: table_exists_def)
  next
    case (Some rows)
    then show ?thesis
      by (simp add: table_exists_def scan_rows_append Cons.IH split: sum.splits flow.splits)
  qed
qed

lemma collect_processed_eq:
  "collect_processed (Some conn) start_ms end_ms limit pkg_filter uid_filter =
     (case scan_rows start_ms end_ms limit pkg_filter uid_filter (scan_order conn) [] of
        Inl err \<Rightarrow> Inl err
      | Inr fl \<Rightarrow> Inr (case fl of Return res \<Rightarrow> res | Next res \<Rightarrow> sort_results res))"
  by (simp add: collect_processed_def connect_def scan_tables_flat scan_order_def
      split: sum.splits flow.splits)

lemma list_all2_set1:
  "list_all2 P xs ys \<Longrightarrow> x \<in> set xs \<Longrightarrow> \<exists>y\<in>set ys. P x y"
  by (induction rule: list_all2_induct) auto

lemma parse_metrics_owner:
  assumes "parse_metrics metrics pkg u = Inr out" and "s \<in> set out"
  shows "uid s = u \<and> package_name s = pkg"
proof -
  from list_all2_set1 [OF parse_metrics_rel [OF assms(1)] assms(2)]
  obtain c where "parse_chunk c pkg u = Inr (Some s)" by blast
  then show ?thesis
    by (auto simp add: parse_chunk_eq split: sum.splits option.splits)
qed

lemma row_recs_props:
  assumes "row_recs start_ms end_ms pkg_filter uid_filter r = Inr ms" and "s \<in> set ms"
  shows "in_range start_ms end_ms (timestramp s)"
    and "str_bool pkg_filter \<Longrightarrow> pkg_filter = Some (package_name s)"
    and "str_bool uid_filter \<Longrightarrow> uid_filter = Some (uid s)"
proof -
  have "in_range start_ms end_ms (timestramp s) \<and>
        (str_bool pkg_filter \<longrightarrow> pkg_filter = Some (package_name s)) \<and>
        (str_bool uid_filter \<longrightarrow> uid_filter = Some (uid s))"
  proof (cases "parse_metrics (Metrics r) (PackageName r) (str (Uid r))")
    case (Inl err)
    with assms show ?thesis
      by (auto simp add: row_recs_def split: if_splits)
  next
    case (Inr recs)
    with assms have "s \<in> set recs \<Longrightarrow> uid s = str (Uid r) \<and> package_name s = PackageName r"
      using parse_metrics_owner [OF Inr] by blast
    with Inr assms show ?thesis
      by (auto simp add: row_recs_def split: if_splits)
  qed
  then show "in_range start_ms end_ms (timestramp s)"
    and "str_bool pkg_filter \<Longrightarrow> pkg_filter = Some (package_name s)"
    and "str_bool uid_filter \<Longrightarrow> uid_filter = Some (uid s)"
    by blast+
qed

lemma set_sort_results: "set (sort_results xs) = set xs"
  by (simp add: sort_results_def)

lemma length_sort_results: "length (sort_results xs) = length xs"
  by (simp add: sort_results_def)

lemma sorted_sort_results:
  "sorted_wrt (\<lambda>a b. timestramp b \<le> timestramp a) (sort_results xs)"
proof -
  have "sorted (map (\<lambda>x. - timestramp x) (sort_results xs))"
    by (simp add: sort_results_def)
  then show ?thesis
    by (simp add: sorted_map)
qed

lemma scan_rows_all:
  assumes "scan_rows start_ms end_ms limit pkg_filter uid_filter rows acc = Inr fl"
    and "\<forall>s\<in>set acc. P s"
    and "\<And>r ms s. r \<in> set rows \<Longrightarrow> row_recs start_ms end_ms pkg_filter uid_filter r = Inr ms \<Longrightarrow>
           s \<in> set ms \<Longrightarrow> P s"
  shows "\<forall>s\<in>set (flow_list fl). P s"
  using assms
proof (induction rows arbitrary: acc)
  case Nil
  then show ?case by auto
next
  case (Cons r rows)
  show ?case
  proof (cases "row_recs start_ms end_ms pkg_filter uid_filter r")
    case (Inl err)
    with Cons.prems(1) show ?thesis by (simp add: scan_rows_step del: scan_rows.simps)
  next
    case (Inr ms)
    have ms: "\<forall>s\<in>set ms. P s"
      using Cons.prems(3) [OF _ Inr] by simp
    show ?thesis
    proof (cases "need limit acc \<le> length ms")
      case True
      with Inr Cons.prems(1)
      have "fl = Return (sort_results (acc @ take (need limit acc) ms))"
        by (simp add: scan_rows_step del: scan_rows.simps)
      with ms Cons.prems(2) show ?thesis
        by (auto simp add: set_sort_results dest: in_set_takeD)
    next
      case False
      with Inr Cons.prems(1)
      have rest: "scan_rows start_ms end_ms limit pkg_filter uid_filter rows (acc @ ms) = Inr fl"
        by (simp add: scan_rows_step del: scan_rows.simps)
      have acc: "\<forall>s\<in>set (acc @ ms). P s"
        using ms Cons.prems(2) by auto
      have rows: "\<And>r' ms' s. r' \<in> set rows \<Longrightarrow>
          row_recs start_ms end_ms pkg_filter uid_filter r' = Inr ms' \<Longrightarrow> s \<in> set ms' \<Longrightarrow> P s"
        using Cons.prems(3) by (meson list.set_intros(2))
      show ?thesis
        by (rule Cons.IH [OF rest acc rows])
    qed
  qed
qed

lemma scan_rows_length:
  assumes "scan_rows start_ms end_ms limit pkg_filter uid_filter rows acc = Inr fl"
    and "int (length acc) < limit"
  shows "case fl of Return res \<Rightarrow> int (length res) = limit | Next res \<Rightarrow> int (length res) < limit"
  using assms
proof (induction rows arbitrary: acc)
  case Nil
  then show ?case by auto
next
  case (Cons r rows)
  show ?case
  proof (cases "row_recs start_ms end_ms pkg_filter uid_filter r")
    case (Inl err)
    with Cons.prems(1) show ?thesis by (simp add: scan_rows_step del: scan_rows.simps)
  next
    case (Inr ms)
    show ?thesis
    proof (cases "need limit acc \<le> length ms")
      case True
      with Inr Cons.prems(1)
      have "fl = Return (sort_results (acc @ take (need limit acc) ms))"
        by (simp add: scan_rows_step del: scan_rows.simps)
      with True Cons.prems(2) show ?thesis
        by (simp add: length_sort_results need_def)
    next
      case False
      with Inr Cons.prems(1)
      have "scan_rows start_ms end_ms limit pkg_filter uid_filter rows (acc @ ms) = Inr fl"
        by (simp add: scan_rows_step del: scan_rows.simps)
      moreover have "int (length (acc @ ms)) < limit"
        using False Cons.prems(2) by (simp add: need_def)
      ultimately show ?thesis
        using Cons.IH by simp
    qed
  qed
qed

lemma scan_rows_Return_sorted:
  "scan_rows start_ms end_ms limit pkg_filter uid_filter rows acc = Inr (Return res) \<Longrightarrow>
   \<exists>xs. res = sort_results xs"
proof (induction rows arbitrary: acc)
  case Nil
  then show ?case by simp
next
  case (Cons r rows)
  then show ?case
    by (auto simp add: scan_rows_step simp del: scan_rows.simps split: sum.splits if_splits)
qed


subsection \<open>The example database, evaluated\<close>



lemma example_collect_2:
  "collect_processed (Some example_db) None None 2 None None =
     Inr [example_sample ''app'' ''7'' 5, example_sample ''app'' ''7'' 3]"
  by code_simp

lemma example_collect_all:
  "collect_processed (Some example_db) None None 10 None None =
     Inr [example_sample ''app'' ''7'' 9, example_sample ''app'' ''7'' 5,
          example_sample ''other'' ''x'' 4, example_sample ''app'' ''7'' 3]"
  by code_simp

lemma example_collect_range:
  "collect_processed (Some example_db) (Some 4) (Some 5) 10 None None =
     Inr [example_sample ''app'' ''7'' 5, example_sample ''other'' ''x'' 4]"
  by code_simp


text \<open>Two samples of one blob with the same timestamp stay in scan order.\<close>

lemma example_collect_ties:
  "collect_processed
     (Some (map_of [(''processes1'', [example_row ''app'' (Integer 7) ''5:1;5:2''])]))
     None None 10 None None =
   Inr [(example_sample ''app'' ''7'' 5)\<lparr>usage_time := 1\<rparr>,
        (example_sample ''app'' ''7'' 5)\<lparr>usage_time := 2\<rparr>]"
  by code_simp

text \<open>
  A row that makes the decoder raise is not reached when the cap is met before it, and
  is reached otherwise.
\<close>

lemma example_collect_stops:
  "collect_processed
     (Some (map_of [(''processes1'',
        [example_row ''app'' (Integer 7) ''5'', example_row ''app'' (Integer 7) ''3'',
         example_row ''app'' (Integer 7) overflow_blob])]))
     None None 2 None None =
   Inr [example_sample ''app'' ''7'' 5, example_sample ''app'' ''7'' 3]"
  "collect_processed
     (Some (map_of [(''processes1'',
        [example_row ''app'' (Integer 7) ''5'', example_row ''app'' (Integer 7) ''3'',
         example_row ''app'' (Integer 7) overflow_blob])]))
     None None 3 None None =
   Inl OverflowError"
  by code_simp+

subsection \<open>The laws of the collector\<close>



text \<open>
  C3. Cap law. For a limit of at least 1, the returned sequence has at most \<open>limit\<close>
  elements.
\<close>

theorem collect_processed_cap:
  assumes "1 \<le> limit"
    and "collect_processed db_file start_ms end_ms limit pkg_filter uid_filter = Inr out"
  shows "int (length out) \<le> limit"
proof (cases db_file)
  case None
  with assms(2) show ?thesis by (simp add: collect_processed_def connect_def)
next
  case (Some conn)
  with assms(2) obtain fl where
    fl: "scan_rows start_ms end_ms limit pkg_filter uid_filter (scan_order conn) [] = Inr fl" and
    out: "out = (case fl of Return res \<Rightarrow> res | Next res \<Rightarrow> sort_results res)"
    by (auto simp add: collect_processed_eq split: sum.splits)
  from scan_rows_length [OF fl] assms(1) out show ?thesis
    by (cases fl) (simp_all add: length_sort_results)
qed

theorem collect_processed_cap_witness:
  "(1::int) \<le> 2 \<and>
   collect_processed (Some example_db) None None 2 None None =
     Inr [example_sample ''app'' ''7'' 5, example_sample ''app'' ''7'' 3] \<and>
   int (length [example_sample ''app'' ''7'' 5, example_sample ''app'' ''7'' 3]) \<le> 2"
proof -
  have "(1::int) \<le> 2" by simp
  from collect_processed_cap [OF this example_collect_2] example_collect_2
  show ?thesis by simp
qed

text \<open>
  C4. Filtering law. Every returned sample has its timestamp within the bounds that
  were supplied, both inclusive; an absent bound imposes nothing.
\<close>

theorem collect_processed_range:
  assumes "collect_processed db_file start_ms end_ms limit pkg_filter uid_filter = Inr out"
    and "s \<in> set out"
  shows "(\<forall>a. start_ms = Some a \<longrightarrow> a \<le> timestramp s) \<and>
         (\<forall>b. end_ms = Some b \<longrightarrow> timestramp s \<le> b)"
proof (cases db_file)
  case None
  with assms(1) show ?thesis by (simp add: collect_processed_def connect_def)
next
  case (Some conn)
  with assms(1) obtain fl where
    fl: "scan_rows start_ms end_ms limit pkg_filter uid_filter (scan_order conn) [] = Inr fl" and
    out: "out = (case fl of Return res \<Rightarrow> res | Next res \<Rightarrow> sort_results res)"
    by (auto simp add: collect_processed_eq split: sum.splits)
  have "\<forall>s\<in>set (flow_list fl). in_range start_ms end_ms (timestramp s)"
    by (rule scan_rows_all [OF fl]) (auto dest: row_recs_props(1))
  moreover from out have "set out = set (flow_list fl)"
    by (cases fl) (simp_all add: set_sort_results)
  ultimately have "in_range start_ms end_ms (timestramp s)"
    using assms(2) by simp
  then show ?thesis
    by (auto simp add: in_range_def)
qed

theorem collect_processed_range_witness:
  "collect_processed (Some example_db) (Some 4) (Some 5) 10 None None =
     Inr [example_sample ''app'' ''7'' 5, example_sample ''other'' ''x'' 4] \<and>
   4 \<le> timestramp (example_sample ''other'' ''x'' 4) \<and>
   timestramp (example_sample ''other'' ''x'' 4) \<le> 5"
proof -
  have "example_sample ''other'' ''x'' 4 \<in>
        set [example_sample ''app'' ''7'' 5, example_sample ''other'' ''x'' 4]"
    by simp
  from collect_processed_range [OF example_collect_range this] example_collect_range
  show ?thesis by simp
qed




text \<open>
  C6. Ordering law. On both exit paths the returned sequence is sorted by timestamp in
  descending order (samples with equal timestamps may follow one another).
\<close>

theorem collect_processed_sorted:
  assumes "collect_processed db_file start_ms end_ms limit pkg_filter uid_filter = Inr out"
  shows "sorted_wrt (\<lambda>a b. timestramp b \<le> timestramp a) out"
proof (cases db_file)
  case None
  with assms(1) show ?thesis by (simp add: collect_processed_def connect_def)
next
  case (Some conn)
  with assms(1) obtain fl where
    fl: "scan_rows start_ms end_ms limit pkg_filter uid_filter (scan_order conn) [] = Inr fl" and
    out: "out = (case fl of Return res \<Rightarrow> res | Next res \<Rightarrow> sort_results res)"
    by (auto simp add: collect_processed_eq split: sum.splits)
  show ?thesis
  proof (cases fl)
    case (Return res)
    with fl obtain xs where "res = sort_results xs"
      using scan_rows_Return_sorted by blast
    with Return out show ?thesis by (simp add: sorted_sort_results)
  next
    case (Next res)
    with out show ?thesis by (simp add: sorted_sort_results)
  qed
qed

theorem collect_processed_sorted_witness:
  "collect_processed (Some example_db) None None 10 None None =
     Inr [example_sample ''app'' ''7'' 9, example_sample ''app'' ''7'' 5,
          example_sample ''other'' ''x'' 4, example_sample ''app'' ''7'' 3] \<and>
   sorted_wrt (\<lambda>a b. timestramp b \<le> timestramp a)
     [example_sample ''app'' ''7'' 9, example_sample ''app'' ''7'' 5,
      example_sample ''other'' ''x'' 4, example_sample ''app'' ''7'' 3]"
  using collect_processed_sorted [OF example_collect_all] example_collect_all
  by simp

section \<open>Properties of the request handlers\<close>

text \<open>\<open>GET /processes\<close> rejects a reversed range before it collects anything.\<close>

lemma processes_rejects_reversed_range:
  "end_ms < start_ms \<Longrightarrow> 1 \<le> limit \<Longrightarrow> limit \<le> 100000 \<Longrightarrow>
   processes db_file start_ms end_ms pkg_filter uid_filter limit =
     Inl (HTTPException 400 ''start_ms deve ser <= end_ms'')"
  by (simp add: processes_def)

text \<open>
  C9, at a failing input. \<open>POST /upload-db\<close> with \<open>start_ms = 10\<close> and \<open>end_ms = 5\<close> is
  not rejected: the file is stored, the collector runs and the response is a success
  with no results. That the rows are decoded shows on a database whose row overflows:
  the same request then ends in the decoder's \<open>OverflowError\<close>.
\<close>

theorem upload_db_reversed_range:
  "snd (upload_db None ''live.db'' example_db (Some 10) (Some 5) None None 1000) =
     Inr \<lparr>count = 0, results = []\<rparr> \<and>
   snd (upload_db None ''live.db'' overflow_db (Some 10) (Some 5) None None 1000) =
     Inl OverflowError"
  by code_simp

end
